theory Spec2Isabelle
  imports Complex_Main
begin

section \<open>The tabular Q-learning agent of \<^verbatim>\<open>office_gym.ipynb\<close>\<close>

text \<open>
  The notebook defines \<^verbatim>\<open>QLearningAgent\<close> on top of NumPy. The embedding keeps the
  class as a record and every method as a function that takes the agent and returns the
  agent it leaves behind, next to the value it returns or the exception it raises.

  Two idealisations are made once and used throughout. NumPy's \<^verbatim>\<open>float64\<close> entries
  are real numbers, so the arithmetic of the update rule is exact. NumPy's
  \<^verbatim>\<open>Generator\<close> is a library object whose bit stream is not part of this repository:
  it is a state of an arbitrary type \<open>'g\<close> together with the three operations the
  notebook calls on it.
\<close>

subsection \<open>Exceptions and NumPy primitives\<close>

datatype error = IndexError | ValueError | InvalidAction | EnvironmentNotInitialized | InvalidSeed

text \<open>
  The operations of \<^verbatim>\<open>numpy.random.Generator\<close> the notebook uses:
  \<^verbatim>\<open>default_rng(seed)\<close>, \<^verbatim>\<open>rng.uniform(0, 1)\<close>, and the index that
  \<^verbatim>\<open>rng.choice(a)\<close> draws into an array of the given length.
\<close>

record 'g Generator =
  rng_seed :: "int \<Rightarrow> 'g"
  rng_uniform :: "'g \<Rightarrow> real \<times> 'g"
  rng_choice :: "nat \<Rightarrow> 'g \<Rightarrow> nat \<times> 'g"

text \<open>
  \<^verbatim>\<open>np.random.default_rng(seed)\<close>: a negative seed is rejected with a
  \<^verbatim>\<open>ValueError\<close>; without a seed the generator is seeded from the operating
  system's entropy, which is an input of the model.
\<close>

definition default_rng :: "'g Generator \<Rightarrow> int option \<Rightarrow> int \<Rightarrow> error + 'g" where
  "default_rng G seed entropy =
     (case seed of
        None \<Rightarrow> Inr (rng_seed G entropy)
      | Some s \<Rightarrow> if s < 0 then Inl ValueError else Inr (rng_seed G s))"

text \<open>
  Indexing one axis of length \<open>n\<close> with a Python integer: a negative index counts from
  the end, anything outside \<open>-n \<le> i < n\<close> raises \<^verbatim>\<open>IndexError\<close>.
\<close>

definition index_of :: "nat \<Rightarrow> int \<Rightarrow> error + nat" where
  "index_of n i =
     (let j = (if i < 0 then i + int n else i)
      in if 0 \<le> j \<and> j < int n then Inr (nat j) else Inl IndexError)"

text \<open>\<^verbatim>\<open>np.max\<close> of a row; an empty row raises \<^verbatim>\<open>ValueError\<close>.\<close>

definition np_max :: "real list \<Rightarrow> error + real" where
  "np_max xs = (case xs of [] \<Rightarrow> Inl ValueError | x # ys \<Rightarrow> Inr (fold max ys x))"

text \<open>
  \<^verbatim>\<open>np.argmax\<close> of a row scans from the left and moves only on a strictly larger
  entry, so it returns the first position of the maximum.
\<close>

fun argmax_scan :: "real list \<Rightarrow> nat \<Rightarrow> nat \<Rightarrow> real \<Rightarrow> nat" where
  "argmax_scan [] i best bestv = best"
| "argmax_scan (x # xs) i best bestv =
     (if bestv < x then argmax_scan xs (Suc i) i x else argmax_scan xs (Suc i) best bestv)"

definition np_argmax :: "real list \<Rightarrow> error + nat" where
  "np_argmax xs = (case xs of [] \<Rightarrow> Inl ValueError | x # ys \<Rightarrow> Inr (argmax_scan ys 1 0 x))"

definition arange :: "nat \<Rightarrow> int list" where
  "arange n = map int [0..<n]"

subsection \<open>The agent\<close>

record 'g QLearningAgent =
  actions :: "int list"
  qtable :: "real list list"
  learning_rate :: real
  discount_factor :: real
  rng :: 'g

text \<open>
  \<^verbatim>\<open>__init__\<close>: \<^verbatim>\<open>np.zeros((nstates, len(actions)))\<close> raises on a negative
  dimension; the generator is created last.
\<close>

definition QLearningAgent_init ::
  "'g Generator \<Rightarrow> int \<Rightarrow> int list \<Rightarrow> real \<Rightarrow> real \<Rightarrow> int option \<Rightarrow> int \<Rightarrow> error + 'g QLearningAgent" where
  "QLearningAgent_init G nstates acts lr df seed entropy =
     (if nstates < 0 then Inl ValueError
      else case default_rng G seed entropy of
             Inl e \<Rightarrow> Inl e
           | Inr g \<Rightarrow> Inr \<lparr>actions = acts,
                         qtable = replicate (nat nstates) (replicate (length acts) 0),
                         learning_rate = lr,
                         discount_factor = df,
                         rng = g\<rparr>)"

text \<open>
  \<^verbatim>\<open>get_action\<close>: the uniform sample is drawn before the comparison with
  \<^verbatim>\<open>epsilon\<close>, so the generator has moved whichever branch runs, also when the
  branch raises. \<^verbatim>\<open>rng.choice\<close> on an empty array raises before it draws.
\<close>

definition get_action ::
  "'g Generator \<Rightarrow> 'g QLearningAgent \<Rightarrow> int \<Rightarrow> real \<Rightarrow> (error + int) \<times> 'g QLearningAgent" where
  "get_action G ag state epsilon =
     (let (u, g1) = rng_uniform G (rng ag);
          ag1 = ag\<lparr>rng := g1\<rparr>
      in if u < epsilon then
           (if actions ag = [] then (Inl ValueError, ag1)
            else let (k, g2) = rng_choice G (length (actions ag)) g1
                 in (Inr (actions ag ! k), ag\<lparr>rng := g2\<rparr>))
         else
           (case index_of (length (qtable ag)) state of
              Inl e \<Rightarrow> (Inl e, ag1)
            | Inr i \<Rightarrow>
                (case np_argmax (qtable ag ! i) of
                   Inl e \<Rightarrow> (Inl e, ag1)
                 | Inr j \<Rightarrow> (Inr (int j), ag1))))"

text \<open>
  \<^verbatim>\<open>update_qtable\<close>: the reads come first (the addressed cell, then the row of the
  next state), the single write last, so an exception leaves the agent as it was. The
  method has no \<^verbatim>\<open>return\<close>: its value is \<open>()\<close>.
\<close>

definition update_qtable ::
  "'g QLearningAgent \<Rightarrow> int \<Rightarrow> int \<Rightarrow> int \<Rightarrow> real \<Rightarrow> (error + unit) \<times> 'g QLearningAgent" where
  "update_qtable ag current_state next_state action reward =
     (case index_of (length (qtable ag)) current_state of
        Inl e \<Rightarrow> (Inl e, ag)
      | Inr i \<Rightarrow>
     (case index_of (length (qtable ag ! i)) action of
        Inl e \<Rightarrow> (Inl e, ag)
      | Inr j \<Rightarrow>
     (let old_qvalue = qtable ag ! i ! j in
      case index_of (length (qtable ag)) next_state of
        Inl e \<Rightarrow> (Inl e, ag)
      | Inr k \<Rightarrow>
     (case np_max (qtable ag ! k) of
        Inl e \<Rightarrow> (Inl e, ag)
      | Inr m \<Rightarrow>
     (let new_qvalue = old_qvalue + learning_rate ag * (reward + discount_factor ag * m - old_qvalue)
      in (Inr (), ag\<lparr>qtable := (qtable ag)[i := (qtable ag ! i)[j := new_qvalue]]\<rparr>))))))"

text \<open>
  A table has shape \<open>n \<times> m\<close> when it has \<open>n\<close> rows of \<open>m\<close> entries each.
\<close>

definition has_shape :: "real list list \<Rightarrow> nat \<Rightarrow> nat \<Rightarrow> bool" where
  "has_shape q n m \<longleftrightarrow> length q = n \<and> list_all (\<lambda>row. length row = m) q"

text \<open>\<open>entry ag s a\<close> is the table entry \<open>Q(s, a)\<close> of a state and an action in range.\<close>

definition entry :: "'g QLearningAgent \<Rightarrow> int \<Rightarrow> int \<Rightarrow> real" where
  "entry ag s a = qtable ag ! nat s ! nat a"


subsection \<open>Sequences of method calls\<close>

text \<open>
  A client of the agent calls its two methods in any order. An exception is caught by
  the caller (the notebook keeps the object), so the next call runs on the agent as the
  failed call left it.
\<close>

datatype call = GetAction int real | UpdateQTable int int int real

fun run_calls :: "'g Generator \<Rightarrow> 'g QLearningAgent \<Rightarrow> call list \<Rightarrow> 'g QLearningAgent" where
  "run_calls G ag [] = ag"
| "run_calls G ag (GetAction s eps # cs) = run_calls G (snd (get_action G ag s eps)) cs"
| "run_calls G ag (UpdateQTable s s' a r # cs) = run_calls G (snd (update_qtable ag s s' a r)) cs"

section \<open>The training loops of the notebook\<close>



section \<open>The episode runner\<close>



section \<open>The update rule in float64 arithmetic\<close>

text \<open>
  The table is a NumPy array of \<^verbatim>\<open>float64\<close>, and every operation of the update rule
  rounds its exact result to the nearest \<^verbatim>\<open>float64\<close>, ties to the even mantissa. The
  finite \<^verbatim>\<open>float64\<close> values are the reals \<open>n * 2 ^ (e - 52)\<close> with an integer
  \<open>n\<close>, \<open>|n| < 2 ^ 53\<close>, and \<open>-1022 \<le> e \<le> 1023\<close>.

  \<open>binade\<close> finds the exponent \<open>e\<close> of a positive real by halving or doubling it into
  \<open>[1, 2)\<close>, stopping at \<open>-1022\<close>, below which the values are subnormal and share the
  spacing \<open>2 ^ (-1074)\<close>; its first argument bounds the number of halvings and doublings.
\<close>

fun binade :: "nat \<Rightarrow> real \<Rightarrow> int \<Rightarrow> int" where
  "binade 0 x e = e"
| "binade (Suc n) x e =
     (if 2 \<le> x then binade n (x / 2) (e + 1)
      else if x < 1 \<and> - 1022 < e then binade n (2 * x) (e - 1)
      else e)"

definition pow2 :: "int \<Rightarrow> real" where
  "pow2 e = (if 0 \<le> e then 2 ^ nat e else 1 / 2 ^ nat (- e))"

definition round_half_even :: "real \<Rightarrow> int" where
  "round_half_even x =
     (let f = \<lfloor>x\<rfloor>; d = x - of_int f
      in if d < 1 / 2 then f else if 1 / 2 < d then f + 1 else if even f then f else f + 1)"

text \<open>
  Rounding to \<^verbatim>\<open>float64\<close>. \<open>None\<close> is the overflow to an infinity; the model follows
  finite values only, and a run in which an infinity arises is not followed further.
  Signed zeros are one zero.
\<close>

definition f64_round :: "real \<Rightarrow> real option" where
  "f64_round x =
     (if x = 0 then Some 0
      else let e = binade 2100 \<bar>x\<bar> 0;
               n = round_half_even (x / pow2 (e - 52))
           in if 1023 < e \<or> (e = 1023 \<and> \<bar>n\<bar> = 2 ^ 53) then None
              else Some (of_int n * pow2 (e - 52)))"

text \<open>
  \<^verbatim>\<open>update_qtable\<close> with the rounding of each operation written out, in the order
  Python evaluates the expression
  \<^verbatim>\<open>old_qvalue + lr * (reward + df * np.max(row) - old_qvalue)\<close>:
  the product \<^verbatim>\<open>df * max\<close>, the sum with the reward, the difference with the old
  value, the product with the learning rate, the final sum. The index checks and the
  write are those of \<open>update_qtable\<close>; the arguments and the entries of the table are
  taken to be \<^verbatim>\<open>float64\<close> values.
\<close>

definition update_qtable_f64 ::
  "'g QLearningAgent \<Rightarrow> int \<Rightarrow> int \<Rightarrow> int \<Rightarrow> real \<Rightarrow> ((error + unit) \<times> 'g QLearningAgent) option" where
  "update_qtable_f64 ag current_state next_state action reward =
     (case index_of (length (qtable ag)) current_state of
        Inl e \<Rightarrow> Some (Inl e, ag)
      | Inr i \<Rightarrow>
     (case index_of (length (qtable ag ! i)) action of
        Inl e \<Rightarrow> Some (Inl e, ag)
      | Inr j \<Rightarrow>
     (let old_qvalue = qtable ag ! i ! j in
      case index_of (length (qtable ag)) next_state of
        Inl e \<Rightarrow> Some (Inl e, ag)
      | Inr k \<Rightarrow>
     (case np_max (qtable ag ! k) of
        Inl e \<Rightarrow> Some (Inl e, ag)
      | Inr m \<Rightarrow>
     (case f64_round (discount_factor ag * m) of None \<Rightarrow> None | Some t1 \<Rightarrow>
     (case f64_round (reward + t1) of None \<Rightarrow> None | Some t2 \<Rightarrow>
     (case f64_round (t2 - old_qvalue) of None \<Rightarrow> None | Some t3 \<Rightarrow>
     (case f64_round (learning_rate ag * t3) of None \<Rightarrow> None | Some t4 \<Rightarrow>
     (case f64_round (old_qvalue + t4) of None \<Rightarrow> None | Some new_qvalue \<Rightarrow>
        Some (Inr (), ag\<lparr>qtable := (qtable ag)[i := (qtable ag ! i)[j := new_qvalue]]\<rparr>))))))))))"

section \<open>The grid environment\<close>

text \<open>
  Modelled from the spec: the class \<^verbatim>\<open>OfficeEnv\<close> is defined in
  \<^verbatim>\<open>office_gym.py\<close>, which the notebook imports and which is not among the sources.
  The data model follows section 3 of the specification: a grid is a fixed
  two-dimensional layout of cells, each of a kind and with a slippery flag; a state is
  the position of a non-wall cell in the row-major enumeration of the non-wall cells.
\<close>

datatype cell_kind = Free | Wall | Start | Goal real | Hazard

record cell =
  kind :: cell_kind
  slippery :: bool

type_synonym grid = "cell list list"





text \<open>
  Modelled from the spec: states are bijective with the non-wall cells; the state of a
  cell is its position among them, and the observation space counts them.
\<close>

definition coords :: "grid \<Rightarrow> (nat \<times> nat) list" where
  "coords g =
     concat (map (\<lambda>r. map (\<lambda>c. (r, c)) (filter (\<lambda>c. kind (g ! r ! c) \<noteq> Wall) [0..<length (g ! r)]))
                 [0..<length g])"


text \<open>
  Modelled from the spec: the sizes of the observation space and of the action space
  (section 6).
\<close>

definition observation_space_n :: "grid \<Rightarrow> nat" where
  "observation_space_n g = length (coords g)"

definition action_space_n :: nat where
  "action_space_n = 4"









section \<open>Concrete generators, agents and layouts\<close>

text \<open>
  A generator for concrete runs. Its state counts the draws made so far; every uniform
  draw returns \<open>u\<close>, and the index drawn into an array of length \<open>n\<close> is the count
  modulo \<open>n\<close>.
\<close>

definition counting_gen :: "real \<Rightarrow> nat Generator" where
  "counting_gen u =
     \<lparr>rng_seed = (\<lambda>s. nat s),
      rng_uniform = (\<lambda>g. (u, Suc g)),
      rng_choice = (\<lambda>n g. (g mod n, Suc g))\<rparr>"

text \<open>An agent over two states and four actions, part of the way through training.\<close>

definition trained_agent :: "nat QLearningAgent" where
  "trained_agent =
     \<lparr>actions = [0, 1, 2, 3],
      qtable = [[0, 0, 0, 0], [1, 2, 2, 0]],
      learning_rate = 1 / 2,
      discount_factor = 9 / 10,
      rng = 0\<rparr>"





text \<open>
  An agent whose table and discount factor are \<^verbatim>\<open>float64\<close> values written as exact
  fractions: the discount factor is the \<^verbatim>\<open>float64\<close> nearest to 0.99, and the two
  entries of the first row are those printed as 0.9700000000000002 and
  0.9699999999999998.
\<close>

definition rounding_agent :: "nat QLearningAgent" where
  "rounding_agent =
     \<lparr>actions = [0, 1],
      qtable = [[2184245819274691 / 2251799813685248, 1092122909637345 / 1125899906842624], [3, 0]],
      learning_rate = 1 / 2,
      discount_factor = 4458563631096791 / 4503599627370496,
      rng = 0\<rparr>"

section \<open>Facts about the NumPy primitives\<close>

lemma index_of_valid: "0 \<le> i \<Longrightarrow> i < int n \<Longrightarrow> index_of n i = Inr (nat i)"
  by (simp add: index_of_def)

lemma index_of_Inr: "index_of n i = Inr j \<Longrightarrow> j < n"
  by (auto simp: index_of_def Let_def split: if_splits)

lemma np_max_Max: "xs \<noteq> [] \<Longrightarrow> np_max xs = Inr (Max (set xs))"
  by (cases xs) (simp_all add: np_max_def Max.set_eq_fold[symmetric])

lemma argmax_scan_spec:
  "best < length pre \<Longrightarrow> bv = pre ! best \<Longrightarrow> \<forall>x\<in>set pre. x \<le> bv \<Longrightarrow> \<forall>k<best. pre ! k < bv \<Longrightarrow>
   argmax_scan xs (length pre) best bv < length (pre @ xs) \<and>
   (\<forall>x\<in>set (pre @ xs). x \<le> (pre @ xs) ! argmax_scan xs (length pre) best bv) \<and>
   (\<forall>k<argmax_scan xs (length pre) best bv. (pre @ xs) ! k < (pre @ xs) ! argmax_scan xs (length pre) best bv)"
proof (induction xs arbitrary: pre best bv)
  case Nil
  then show ?case by simp
next
  case (Cons x xs)
  show ?case
  proof (cases "bv < x")
    case True
    have a: "length pre < length (pre @ [x])" by simp
    have b: "x = (pre @ [x]) ! length pre" by simp
    have c: "\<forall>y\<in>set (pre @ [x]). y \<le> x" using Cons.prems True by fastforce
    have d: "\<forall>k<length pre. (pre @ [x]) ! k < x"
    proof (intro allI impI)
      fix k assume k: "k < length pre"
      then have "pre ! k \<le> bv" using Cons.prems(3) by simp
      with True k show "(pre @ [x]) ! k < x" by (simp add: nth_append)
    qed
    from Cons.IH[OF a b c d] True show ?thesis by simp
  next
    case False
    have a: "best < length (pre @ [x])" using Cons.prems by simp
    have b: "bv = (pre @ [x]) ! best" using Cons.prems by (simp add: nth_append)
    have c: "\<forall>y\<in>set (pre @ [x]). y \<le> bv" using Cons.prems False by auto
    have d: "\<forall>k<best. (pre @ [x]) ! k < bv" using Cons.prems by (simp add: nth_append)
    from Cons.IH[OF a b c d] False show ?thesis by simp
  qed
qed

lemma np_argmax_spec:
  assumes "xs \<noteq> []"
  shows "\<exists>j. np_argmax xs = Inr j \<and> j < length xs \<and> xs ! j = Max (set xs) \<and> (\<forall>k<j. xs ! k < xs ! j)"
proof -
  obtain x ys where xs: "xs = x # ys" using assms by (cases xs) auto
  let ?j = "argmax_scan ys 1 0 x"
  have "?j < length ([x] @ ys) \<and> (\<forall>y\<in>set ([x] @ ys). y \<le> ([x] @ ys) ! ?j) \<and>
        (\<forall>k<?j. ([x] @ ys) ! k < ([x] @ ys) ! ?j)"
    using argmax_scan_spec[of 0 "[x]" x ys] by simp
  then have j: "?j < length xs" "\<forall>y\<in>set xs. y \<le> xs ! ?j" "\<forall>k<?j. xs ! k < xs ! ?j"
    by (simp_all add: xs)
  have "Max (set xs) = xs ! ?j"
    using j by (intro Max_eqI) auto
  with j show ?thesis by (simp add: np_argmax_def xs)
qed

section \<open>The update rule\<close>

lemma has_shape_row: "has_shape q n m \<Longrightarrow> i < n \<Longrightarrow> length (q ! i) = m"
  by (simp add: has_shape_def list_all_length)

lemma has_shape_update: "has_shape q n m \<Longrightarrow> i < n \<Longrightarrow> has_shape (q[i := (q ! i)[j := v]]) n m"
  by (auto simp: has_shape_def list_all_length nth_list_update)

lemma update_qtable_valid:
  assumes sh: "has_shape (qtable ag) n m"
    and s: "0 \<le> s" "s < int n" and s': "0 \<le> s'" "s' < int n" and a: "0 \<le> a" "a < int m"
  shows "update_qtable ag s s' a r =
     (Inr (), ag\<lparr>qtable := (qtable ag)[nat s := (qtable ag ! nat s)[nat a :=
        qtable ag ! nat s ! nat a
          + learning_rate ag * (r + discount_factor ag * Max (set (qtable ag ! nat s'))
                                 - qtable ag ! nat s ! nat a)]]\<rparr>)"
proof -
  have len: "length (qtable ag) = n" using sh by (simp add: has_shape_def)
  have ls: "length (qtable ag ! nat s) = m" using sh s by (intro has_shape_row) auto
  have ls': "length (qtable ag ! nat s') = m" using sh s' by (intro has_shape_row) auto
  have ne: "qtable ag ! nat s' \<noteq> []" using ls' a by auto
  have i1: "index_of (length (qtable ag)) s = Inr (nat s)" using s len by (simp add: index_of_valid)
  have i2: "index_of (length (qtable ag ! nat s)) a = Inr (nat a)" using a ls by (simp add: index_of_valid)
  have i3: "index_of (length (qtable ag)) s' = Inr (nat s')" using s' len by (simp add: index_of_valid)
  show ?thesis
    by (simp add: update_qtable_def i1 i2 i3 np_max_Max[OF ne] Let_def)
qed

lemma update_qtable_cases:
  "snd (update_qtable ag s s' a r) = ag \<or>
   (\<exists>i j v. i < length (qtable ag) \<and> snd (update_qtable ag s s' a r) = ag\<lparr>qtable := (qtable ag)[i := (qtable ag ! i)[j := v]]\<rparr>)"
  by (auto simp: update_qtable_def Let_def split: sum.splits dest: index_of_Inr)

lemma update_qtable_shape:
  "has_shape (qtable ag) n m \<Longrightarrow> has_shape (qtable (snd (update_qtable ag s s' a r))) n m"
proof -
  assume sh: "has_shape (qtable ag) n m"
  then have len: "length (qtable ag) = n" by (simp add: has_shape_def)
  from update_qtable_cases[of ag s s' a r] show ?thesis
  proof (elim disjE exE conjE)
    assume "snd (update_qtable ag s s' a r) = ag"
    with sh show ?thesis by simp
  next
    fix i j v
    assume "i < length (qtable ag)"
      and "snd (update_qtable ag s s' a r) = ag\<lparr>qtable := (qtable ag)[i := (qtable ag ! i)[j := v]]\<rparr>"
    with sh len show ?thesis by (simp add: has_shape_update)
  qed
qed

lemma update_qtable_actions: "actions (snd (update_qtable ag s s' a r)) = actions ag"
  using update_qtable_cases[of ag s s' a r] by auto



text \<open>
  Claim C7. For states and an action in range, \<^verbatim>\<open>update_qtable\<close> changes no cell of
  the table other than the one at \<open>(s, a)\<close>, and leaves the learning rate, the discount
  factor, the action array, the generator and the shape of the table as they were.
\<close>

theorem update_qtable_frame:
  assumes "has_shape (qtable ag) n m"
    and "0 \<le> s" "s < int n" and "0 \<le> s'" "s' < int n" and "0 \<le> a" "a < int m"
  shows "(\<forall>i j. i < n \<and> j < m \<and> (i, j) \<noteq> (nat s, nat a) \<longrightarrow>
            qtable (snd (update_qtable ag s s' a r)) ! i ! j = qtable ag ! i ! j)
       \<and> learning_rate (snd (update_qtable ag s s' a r)) = learning_rate ag
       \<and> discount_factor (snd (update_qtable ag s s' a r)) = discount_factor ag
       \<and> actions (snd (update_qtable ag s s' a r)) = actions ag
       \<and> rng (snd (update_qtable ag s s' a r)) = rng ag
       \<and> has_shape (qtable (snd (update_qtable ag s s' a r))) n m"
proof -
  have len: "length (qtable ag) = n" using assms(1) by (simp add: has_shape_def)
  show ?thesis
    unfolding update_qtable_valid[OF assms, of r]
    using assms(1,2,3) len
    by (auto simp: nth_list_update has_shape_update)
qed

theorem update_qtable_frame_witness:
  "has_shape (qtable trained_agent) 2 4 \<and>
   qtable (snd (update_qtable trained_agent 0 1 2 (- 1))) ! 1 ! 2 = 2 \<and>
   learning_rate (snd (update_qtable trained_agent 0 1 2 (- 1))) = 1 / 2"
  using update_qtable_frame[of trained_agent 2 4 0 1 2 "- 1"]
  by (simp add: trained_agent_def has_shape_def)

section \<open>The update rule in float64 arithmetic: fixed points\<close>

lemma binade_numeral:
  "binade (numeral k) x e =
     (if 2 \<le> x then binade (pred_numeral k) (x / 2) (e + 1)
      else if x < 1 \<and> - 1022 < e then binade (pred_numeral k) (2 * x) (e - 1)
      else e)"
  by (simp add: numeral_eq_Suc)

lemmas f64_eval = f64_round_def binade_numeral pow2_def round_half_even_def Let_def

lemma f64_round_zero: "f64_round 0 = Some 0"
  by (simp add: f64_round_def)

text \<open>
  Claim C9, in the arithmetic the code runs in. If the \<^verbatim>\<open>float64\<close> value the code
  computes for \<open>r + \<gamma> max\<^sub>a\<^sub>' Q(s', a')\<close>, the product rounded and then the sum rounded,
  equals the entry \<open>Q(s, a)\<close>, a \<^verbatim>\<open>float64\<close> value itself, then
  \<^verbatim>\<open>update_qtable(s, s', a, r)\<close> leaves the agent unchanged, for every finite
  learning rate: the difference is an exact zero and stays one.
\<close>

theorem update_qtable_f64_fixed_point:
  assumes "has_shape (qtable ag) n m"
    and "0 \<le> s" "s < int n" and "0 \<le> s'" "s' < int n" and "0 \<le> a" "a < int m"
    and "f64_round (discount_factor ag * Max ((\<lambda>a'. entry ag s' (int a')) ` {..<m})) = Some t"
    and "f64_round (r + t) = Some (entry ag s a)"
    and "f64_round (entry ag s a) = Some (entry ag s a)"
  shows "update_qtable_f64 ag s s' a r = Some (Inr (), ag)"
proof -
  have len: "length (qtable ag) = n" using assms(1) by (simp add: has_shape_def)
  have ls: "length (qtable ag ! nat s) = m" using assms by (intro has_shape_row) auto
  have ls': "length (qtable ag ! nat s') = m" using assms by (intro has_shape_row) auto
  have ne: "qtable ag ! nat s' \<noteq> []" using ls' assms(6,7) by auto
  have img: "set (qtable ag ! nat s') = (\<lambda>a'. entry ag s' (int a')) ` {..<m}"
    using ls' by (auto simp: set_conv_nth entry_def)
  have i1: "index_of (length (qtable ag)) s = Inr (nat s)"
    using assms(2,3) len by (simp add: index_of_valid)
  have i2: "index_of (length (qtable ag ! nat s)) a = Inr (nat a)"
    using assms(6,7) ls by (simp add: index_of_valid)
  have i3: "index_of (length (qtable ag)) s' = Inr (nat s')"
    using assms(4,5) len by (simp add: index_of_valid)
  have t1: "f64_round (discount_factor ag * Max (set (qtable ag ! nat s'))) = Some t"
    using assms(8) by (simp add: img)
  have t2: "f64_round (r + t) = Some (qtable ag ! nat s ! nat a)"
    using assms(9) by (simp add: entry_def)
  have old: "f64_round (qtable ag ! nat s ! nat a) = Some (qtable ag ! nat s ! nat a)"
    using assms(10) by (simp add: entry_def)
  show ?thesis
    by (simp add: update_qtable_f64_def i1 i2 i3 np_max_Max[OF ne] t1 t2 f64_round_zero old Let_def)
qed

theorem update_qtable_f64_fixed_point_witness:
  "update_qtable_f64 rounding_agent 0 1 1 (- 2) = Some (Inr (), rounding_agent)"
proof -
  have sh: "has_shape (qtable rounding_agent) 2 2"
    by (simp add: rounding_agent_def has_shape_def)
  have mx: "Max ((\<lambda>a'. entry rounding_agent 1 (int a')) ` {..<2}) = 3"
    by (simp add: rounding_agent_def entry_def lessThan_nat_numeral lessThan_Suc)
  have t1: "f64_round (discount_factor rounding_agent
                * Max ((\<lambda>a'. entry rounding_agent 1 (int a')) ` {..<2}))
      = Some (3343922723322593 / 1125899906842624)"
    unfolding mx by (simp add: rounding_agent_def f64_eval)
  have t2: "f64_round (- 2 + 3343922723322593 / 1125899906842624) = Some (entry rounding_agent 0 1)"
    by (simp add: rounding_agent_def entry_def f64_eval)
  have old: "f64_round (entry rounding_agent 0 1) = Some (entry rounding_agent 0 1)"
    by (simp add: rounding_agent_def entry_def f64_eval)
  from update_qtable_f64_fixed_point[OF sh _ _ _ _ _ _ t1 t2 old]
  show ?thesis by simp
qed

text \<open>
  Claim C9 as stated fails. With \<open>r\<close> the \<^verbatim>\<open>float64\<close> printed as
  -1.9999999999999998, the exact value of \<open>r + \<gamma> max\<^sub>a\<^sub>' Q(1, a')\<close> is the entry
  \<open>Q(0, 0)\<close>, yet the product of \<open>\<gamma>\<close> and 3 is rounded before the sum, the computed
  target is 0.97 and the call rewrites \<open>Q(0, 0)\<close> from 0.9700000000000002 to
  0.9700000000000001.
\<close>

theorem update_qtable_fixed_point_fails_in_float64:
  "- (9007199254740991 / 4503599627370496)
      + discount_factor rounding_agent * Max (set (qtable rounding_agent ! 1))
     = qtable rounding_agent ! 0 ! 0
   \<and> update_qtable_f64 rounding_agent 0 1 0 (- (9007199254740991 / 4503599627370496))
     = Some (Inr (), rounding_agent\<lparr>qtable :=
         [[8736983277098763 / 9007199254740992, 1092122909637345 / 1125899906842624], [3, 0]]\<rparr>)
   \<and> update_qtable_f64 rounding_agent 0 1 0 (- (9007199254740991 / 4503599627370496))
     \<noteq> Some (Inr (), rounding_agent)"
proof -
  let ?r = "- (9007199254740991 / 4503599627370496) :: real"
  have hyp: "?r + discount_factor rounding_agent * Max (set (qtable rounding_agent ! 1))
      = qtable rounding_agent ! 0 ! 0"
    by (simp add: rounding_agent_def)
  have t1: "f64_round (4458563631096791 / 4503599627370496 * 3)
      = Some (3343922723322593 / 1125899906842624)"
    by (simp add: f64_eval)
  have t2: "f64_round (?r + 3343922723322593 / 1125899906842624)
      = Some (4368491638549381 / 4503599627370496)"
    by (simp add: f64_eval)
  have t3: "f64_round (4368491638549381 / 4503599627370496 - 2184245819274691 / 2251799813685248)
      = Some (- (1 / 4503599627370496))"
    by (simp add: f64_eval)
  have t4: "f64_round (1 / 2 * - (1 / 4503599627370496)) = Some (- (1 / 9007199254740992))"
    by (simp add: f64_eval)
  have t5: "f64_round (2184245819274691 / 2251799813685248 + - (1 / 9007199254740992))
      = Some (8736983277098763 / 9007199254740992)"
    by (simp add: f64_eval)
  have upd: "update_qtable_f64 rounding_agent 0 1 0 ?r
      = Some (Inr (), rounding_agent\<lparr>qtable :=
          [[8736983277098763 / 9007199254740992, 1092122909637345 / 1125899906842624], [3, 0]]\<rparr>)"
    by (simp add: update_qtable_f64_def rounding_agent_def index_of_def np_max_def f64_eval)
  have "update_qtable_f64 rounding_agent 0 1 0 ?r \<noteq> Some (Inr (), rounding_agent)"
    unfolding upd by (simp add: rounding_agent_def)
  with hyp upd show ?thesis by blast
qed

section \<open>Action selection and sequences of calls\<close>

lemma get_action_frame:
  "snd (get_action G ag s eps) = ag\<lparr>rng := rng (snd (get_action G ag s eps))\<rparr>"
  by (auto simp: get_action_def Let_def split: prod.splits sum.splits)

lemma get_action_qtable: "qtable (snd (get_action G ag s eps)) = qtable ag"
  by (subst get_action_frame) simp

lemma get_action_actions: "actions (snd (get_action G ag s eps)) = actions ag"
  by (subst get_action_frame) simp

lemma run_calls_shape:
  "has_shape (qtable ag) n m \<Longrightarrow> has_shape (qtable (run_calls G ag cs)) n m"
proof (induction cs arbitrary: ag)
  case Nil
  then show ?case by simp
next
  case (Cons c cs)
  then show ?case
    by (cases c) (simp_all add: get_action_qtable update_qtable_shape)
qed

lemma run_calls_actions: "actions (run_calls G ag cs) = actions ag"
proof (induction cs arbitrary: ag)
  case Nil
  then show ?case by simp
next
  case (Cons c cs)
  then show ?case
    by (cases c) (simp_all add: get_action_actions update_qtable_actions)
qed

lemma init_shape:
  "QLearningAgent_init G nstates acts lr df seed entropy = Inr ag \<Longrightarrow>
   qtable ag = replicate (nat nstates) (replicate (length acts) 0) \<and> actions ag = acts
   \<and> learning_rate ag = lr \<and> discount_factor ag = df"
  by (auto simp: QLearningAgent_init_def split: if_splits sum.splits)

lemma has_shape_zeros: "has_shape (replicate n (replicate m 0)) n m"
  by (simp add: has_shape_def list_all_length)

text \<open>
  Claim C6. The constructor builds a table of \<^verbatim>\<open>nstates\<close> rows and
  \<^verbatim>\<open>len(actions)\<close> columns whose entries are all zero, and after any sequence of
  \<^verbatim>\<open>get_action\<close> and \<^verbatim>\<open>update_qtable\<close> calls, failing ones included, the table
  still has that shape.
\<close>

theorem qtable_shape_invariant:
  assumes "QLearningAgent_init G nstates acts lr df seed entropy = Inr ag"
  shows "has_shape (qtable ag) (nat nstates) (length acts)
       \<and> (\<forall>i < nat nstates. \<forall>j < length acts. qtable ag ! i ! j = 0)
       \<and> (\<forall>cs. has_shape (qtable (run_calls G ag cs)) (nat nstates) (length acts))"
proof -
  have q: "qtable ag = replicate (nat nstates) (replicate (length acts) 0)"
    using init_shape[OF assms] by simp
  have sh: "has_shape (qtable ag) (nat nstates) (length acts)"
    by (simp add: q has_shape_zeros)
  moreover have "\<forall>i < nat nstates. \<forall>j < length acts. qtable ag ! i ! j = 0"
    by (simp add: q)
  ultimately show ?thesis by (simp add: run_calls_shape)
qed

theorem qtable_shape_invariant_witness:
  "QLearningAgent_init (counting_gen (1 / 2)) 2 (arange 4) (1 / 2) (99 / 100) (Some 5) 0
     = Inr \<lparr>actions = arange 4, qtable = replicate 2 (replicate 4 0), learning_rate = 1 / 2,
            discount_factor = 99 / 100, rng = 5\<rparr> \<and>
   has_shape (qtable (run_calls (counting_gen (1 / 2))
       \<lparr>actions = arange 4, qtable = replicate 2 (replicate 4 0), learning_rate = 1 / 2,
            discount_factor = 99 / 100, rng = 5\<rparr>
       [GetAction 0 (99 / 100), UpdateQTable 0 1 2 (- 1), GetAction 7 0, UpdateQTable 1 0 9 3])) 2 4"
proof -
  let ?G = "counting_gen (1 / 2)"
  let ?ag = "\<lparr>actions = arange 4, qtable = replicate 2 (replicate 4 0), learning_rate = 1 / 2,
              discount_factor = 99 / 100, rng = 5\<rparr> :: nat QLearningAgent"
  let ?cs = "[GetAction 0 (99 / 100), UpdateQTable 0 1 2 (- 1), GetAction 7 0, UpdateQTable 1 0 9 3]"
  have h: "QLearningAgent_init ?G 2 (arange 4) (1 / 2) (99 / 100) (Some 5) 0 = Inr ?ag"
    by (simp add: QLearningAgent_init_def default_rng_def counting_gen_def arange_def)
  from qtable_shape_invariant[OF h]
  have "has_shape (qtable (run_calls ?G ?ag ?cs)) (nat 2) (length (arange 4))" by blast
  then have "has_shape (qtable (run_calls ?G ?ag ?cs)) 2 4" by (simp add: arange_def)
  with h show ?thesis by blast
qed

lemma get_action_explore:
  assumes "rng_uniform G (rng ag) = (u, g1)" "u < eps" "actions ag \<noteq> []"
    "rng_choice G (length (actions ag)) g1 = (k, g2)"
  shows "get_action G ag s eps = (Inr (actions ag ! k), ag\<lparr>rng := g2\<rparr>)"
  using assms by (simp add: get_action_def)

lemma get_action_exploit:
  assumes "rng_uniform G (rng ag) = (u, g1)" "\<not> u < eps"
    "has_shape (qtable ag) n m" "0 \<le> s" "s < int n" "0 < m"
  shows "\<exists>j<m. get_action G ag s eps = (Inr (int j), ag\<lparr>rng := g1\<rparr>)
           \<and> qtable ag ! nat s ! j = Max (set (qtable ag ! nat s))
           \<and> (\<forall>i<j. qtable ag ! nat s ! i < qtable ag ! nat s ! j)"
proof -
  have len: "length (qtable ag) = n" using assms(3) by (simp add: has_shape_def)
  have row: "length (qtable ag ! nat s) = m" using assms by (intro has_shape_row) auto
  then have ne: "qtable ag ! nat s \<noteq> []" using assms(6) by auto
  from np_argmax_spec[OF ne] obtain j where j: "np_argmax (qtable ag ! nat s) = Inr j"
    "j < length (qtable ag ! nat s)" "qtable ag ! nat s ! j = Max (set (qtable ag ! nat s))"
    "\<forall>k<j. qtable ag ! nat s ! k < qtable ag ! nat s ! j" by blast
  have ix: "index_of (length (qtable ag)) s = Inr (nat s)"
    using assms(4,5) len by (simp add: index_of_valid)
  have "get_action G ag s eps = (Inr (int j), ag\<lparr>rng := g1\<rparr>)"
    using assms(1,2) by (simp add: get_action_def ix j(1))
  with j row show ?thesis by auto
qed

text \<open>
  Claim C3. Let \<open>u\<close> be the uniform sample the call draws, a number in \<open>[0, 1)\<close>, and let
  \<open>0 \<le> epsilon \<le> 1\<close>. The call explores exactly when \<open>u\<close> falls in \<open>[0, epsilon)\<close>, an
  interval of length \<open>epsilon\<close>, and then returns the element of the action array at the
  index the generator draws; otherwise it returns the index of the largest entry of the
  row of the state, the lowest such index when several entries are largest. With
  \<open>epsilon = 0\<close> it always returns that index. How \<open>u\<close> and the index are distributed
  is the generator's business.
\<close>

theorem get_action_policy:
  assumes "has_shape (qtable ag) n m" and "0 \<le> s" "s < int n"
    and "length (actions ag) = m" "0 < m"
    and "rng_uniform G (rng ag) = (u, g1)" "0 \<le> u" "u < 1"
    and "rng_choice G m g1 = (k, g2)"
    and "0 \<le> eps" "eps \<le> 1"
  shows "(u \<in> {0..<eps} \<longrightarrow> get_action G ag s eps = (Inr (actions ag ! k), ag\<lparr>rng := g2\<rparr>))
       \<and> (u \<notin> {0..<eps} \<longrightarrow>
            (\<exists>j<m. get_action G ag s eps = (Inr (int j), ag\<lparr>rng := g1\<rparr>)
                 \<and> entry ag s (int j) = Max ((\<lambda>a'. entry ag s (int a')) ` {..<m})
                 \<and> (\<forall>i<j. entry ag s (int i) < entry ag s (int j))))
       \<and> (eps = 0 \<longrightarrow>
            (\<exists>j<m. get_action G ag s eps = (Inr (int j), ag\<lparr>rng := g1\<rparr>)
                 \<and> entry ag s (int j) = Max ((\<lambda>a'. entry ag s (int a')) ` {..<m})
                 \<and> (\<forall>i<j. entry ag s (int i) < entry ag s (int j))))"
proof -
  have row: "length (qtable ag ! nat s) = m" using assms by (intro has_shape_row) auto
  then have img: "set (qtable ag ! nat s) = (\<lambda>a'. entry ag s (int a')) ` {..<m}"
    by (auto simp: set_conv_nth entry_def)
  have ne: "actions ag \<noteq> []" using assms(4,5) by auto
  have explore: "u < eps \<Longrightarrow> get_action G ag s eps = (Inr (actions ag ! k), ag\<lparr>rng := g2\<rparr>)"
    using get_action_explore[OF assms(6) _ ne, of eps k g2 s] assms(4,9) by simp
  have exploit: "\<not> u < eps \<Longrightarrow>
      (\<exists>j<m. get_action G ag s eps = (Inr (int j), ag\<lparr>rng := g1\<rparr>)
         \<and> entry ag s (int j) = Max ((\<lambda>a'. entry ag s (int a')) ` {..<m})
         \<and> (\<forall>i<j. entry ag s (int i) < entry ag s (int j)))"
    using get_action_exploit[OF assms(6) _ assms(1,2,3,5)] by (simp add: entry_def img)
  show ?thesis
  proof (intro conjI impI)
    assume "u \<in> {0..<eps}"
    then show "get_action G ag s eps = (Inr (actions ag ! k), ag\<lparr>rng := g2\<rparr>)"
      using explore by simp
  next
    assume "u \<notin> {0..<eps}"
    then have "\<not> u < eps" using assms(7) by simp
    then show "\<exists>j<m. get_action G ag s eps = (Inr (int j), ag\<lparr>rng := g1\<rparr>)
         \<and> entry ag s (int j) = Max ((\<lambda>a'. entry ag s (int a')) ` {..<m})
         \<and> (\<forall>i<j. entry ag s (int i) < entry ag s (int j))" by (rule exploit)
  next
    assume "eps = 0"
    then have "\<not> u < eps" using assms(7) by simp
    then show "\<exists>j<m. get_action G ag s eps = (Inr (int j), ag\<lparr>rng := g1\<rparr>)
         \<and> entry ag s (int j) = Max ((\<lambda>a'. entry ag s (int a')) ` {..<m})
         \<and> (\<forall>i<j. entry ag s (int i) < entry ag s (int j))" by (rule exploit)
  qed
qed

theorem get_action_policy_witness:
  "get_action (counting_gen (1 / 2)) trained_agent 1 0 = (Inr 1, trained_agent\<lparr>rng := 1\<rparr>)
   \<and> get_action (counting_gen (1 / 2)) trained_agent 1 (99 / 100)
        = (Inr (actions trained_agent ! 1), trained_agent\<lparr>rng := 2\<rparr>)"
proof -
  let ?G = "counting_gen (1 / 2)"
  have sh: "has_shape (qtable trained_agent) 2 4"
    by (simp add: trained_agent_def has_shape_def)
  have len: "length (actions trained_agent) = 4" by (simp add: trained_agent_def)
  have u: "rng_uniform ?G (rng trained_agent) = (1 / 2, 1)"
    by (simp add: counting_gen_def trained_agent_def)
  have c: "rng_choice ?G 4 1 = (1, 2)" by (simp add: counting_gen_def)
  have exploit: "\<exists>j<4. get_action ?G trained_agent 1 0 = (Inr (int j), trained_agent\<lparr>rng := 1\<rparr>)
       \<and> entry trained_agent 1 (int j) = Max ((\<lambda>a'. entry trained_agent 1 (int a')) ` {..<4})
       \<and> (\<forall>i<j. entry trained_agent 1 (int i) < entry trained_agent 1 (int j))"
    using get_action_policy[OF sh _ _ len _ u _ _ c, of 1 0] by simp
  then obtain j where j: "j < 4"
      "get_action ?G trained_agent 1 0 = (Inr (int j), trained_agent\<lparr>rng := 1\<rparr>)"
      "entry trained_agent 1 (int j) = Max ((\<lambda>a'. entry trained_agent 1 (int a')) ` {..<4})"
      "\<forall>i<j. entry trained_agent 1 (int i) < entry trained_agent 1 (int j)" by blast
  have mx: "Max ((\<lambda>a'. entry trained_agent 1 (int a')) ` {..<4}) = 2"
    by (simp add: trained_agent_def entry_def lessThan_nat_numeral lessThan_Suc)
  have "j = 1"
  proof -
    from j(1) have "j = 0 \<or> j = 1 \<or> j = 2 \<or> j = 3" by auto
    then show ?thesis
    proof (elim disjE)
      assume "j = 0" with j(3) mx show ?thesis by (simp add: trained_agent_def entry_def)
    next
      assume "j = 1" then show ?thesis .
    next
      assume "j = 2"
      with j(4) have "(1::nat) < 2 \<longrightarrow> entry trained_agent 1 (int 1) < entry trained_agent 1 (int 2)"
        by blast
      then have "entry trained_agent 1 (int 1) < entry trained_agent 1 (int 2)" by simp
      then show ?thesis by (simp add: trained_agent_def entry_def)
    next
      assume "j = 3" with j(3) mx show ?thesis by (simp add: trained_agent_def entry_def)
    qed
  qed
  with j(2) have a: "get_action ?G trained_agent 1 0 = (Inr 1, trained_agent\<lparr>rng := 1\<rparr>)" by simp
  have b: "get_action ?G trained_agent 1 (99 / 100)
        = (Inr (actions trained_agent ! 1), trained_agent\<lparr>rng := 2\<rparr>)"
    using get_action_policy[OF sh _ _ len _ u _ _ c, of 1 "99 / 100"] by simp
  from a b show ?thesis by blast
qed

text \<open>
  Claim C8. \<^verbatim>\<open>get_action\<close> leaves the table, the learning rate, the discount factor
  and the action array as they were. The generator it leaves behind is the one after the
  uniform draw, or after the uniform draw and the draw of an index when it explores: the
  uniform sample is drawn on every call, also with \<open>epsilon = 0\<close>.
\<close>

theorem get_action_frame_rng:
  assumes "rng_uniform G (rng ag) = (u, g1)"
  shows "qtable (snd (get_action G ag s eps)) = qtable ag
       \<and> learning_rate (snd (get_action G ag s eps)) = learning_rate ag
       \<and> discount_factor (snd (get_action G ag s eps)) = discount_factor ag
       \<and> actions (snd (get_action G ag s eps)) = actions ag
       \<and> (u < eps \<and> actions ag \<noteq> [] \<longrightarrow>
            rng (snd (get_action G ag s eps)) = snd (rng_choice G (length (actions ag)) g1))
       \<and> (\<not> (u < eps \<and> actions ag \<noteq> []) \<longrightarrow> rng (snd (get_action G ag s eps)) = g1)
       \<and> (eps = 0 \<and> 0 \<le> u \<longrightarrow> rng (snd (get_action G ag s eps)) = g1)"
  using assms
  by (auto simp: get_action_def Let_def split: prod.splits sum.splits)

theorem get_action_frame_rng_witness:
  "rng trained_agent = 0
   \<and> rng (snd (get_action (counting_gen (1 / 2)) trained_agent 1 0)) = 1
   \<and> rng (snd (get_action (counting_gen (1 / 2)) trained_agent 1 (99 / 100))) = 2
   \<and> qtable (snd (get_action (counting_gen (1 / 2)) trained_agent 1 0)) = qtable trained_agent"
proof -
  let ?G = "counting_gen (1 / 2)"
  have u: "rng_uniform ?G (rng trained_agent) = (1 / 2, 1)"
    by (simp add: counting_gen_def trained_agent_def)
  have "rng (snd (get_action ?G trained_agent 1 0)) = 1"
    using get_action_frame_rng[OF u, of 1 0] by simp
  moreover have "rng (snd (get_action ?G trained_agent 1 (99 / 100))) = 2"
    using get_action_frame_rng[OF u, of 1 "99 / 100"]
    by (simp add: trained_agent_def counting_gen_def)
  moreover have "qtable (snd (get_action ?G trained_agent 1 0)) = qtable trained_agent"
    using get_action_frame_rng[OF u, of 1 0] by simp
  moreover have "rng trained_agent = 0" by (simp add: trained_agent_def)
  ultimately show ?thesis by blast
qed

lemma arange_nth: "k < n \<Longrightarrow> arange n ! k = int k"
  by (simp add: arange_def)

lemma arange_length: "length (arange n) = n"
  by (simp add: arange_def)

text \<open>
  Claim C10. An agent constructed with \<^verbatim>\<open>actions = arange(n)\<close>, \<open>n \<ge> 1\<close>, returns
  from \<^verbatim>\<open>get_action\<close> on a state in range, after any sequence of calls, an integer in
  \<open>{0, \<dots>, n - 1}\<close>, provided the generator draws indices below the length it is given.
  The action array then holds its own indices, which is what makes the element of the
  array that exploration returns and the index that exploitation returns the same kind
  of value.
\<close>

theorem get_action_in_range:
  assumes "QLearningAgent_init G nstates (arange n) lr df seed entropy = Inr ag0"
    and "1 \<le> n"
    and "\<forall>g. fst (rng_choice G n g) < n"
    and "0 \<le> s" "s < nstates"
  shows "(\<exists>a. fst (get_action G (run_calls G ag0 cs) s eps) = Inr a \<and> 0 \<le> a \<and> a < int n)
       \<and> (\<forall>k<n. actions (run_calls G ag0 cs) ! k = int k)"
proof -
  let ?ag = "run_calls G ag0 cs"
  have acts: "actions ?ag = arange n"
    using init_shape[OF assms(1)] by (simp add: run_calls_actions)
  have "has_shape (qtable ag0) (nat nstates) n"
    using init_shape[OF assms(1)] by (simp add: has_shape_zeros arange_length)
  then have sh: "has_shape (qtable ?ag) (nat nstates) n" by (rule run_calls_shape)
  obtain u g1 where d: "rng_uniform G (rng ?ag) = (u, g1)" by (cases "rng_uniform G (rng ?ag)")
  obtain k g2 where c: "rng_choice G (length (actions ?ag)) g1 = (k, g2)"
    by (cases "rng_choice G (length (actions ?ag)) g1")
  have k: "k < n" using assms(3) c acts by (metis arange_length fst_conv)
  have ne: "actions ?ag \<noteq> []" using acts assms(2) by (auto simp: arange_def)
  have "\<exists>a. fst (get_action G ?ag s eps) = Inr a \<and> 0 \<le> a \<and> a < int n"
  proof (cases "u < eps")
    case True
    from get_action_explore[OF d True ne c] k acts show ?thesis
      by (simp add: arange_nth)
  next
    case False
    have "s < int (nat nstates)" using assms(4,5) by simp
    from get_action_exploit[OF d False sh assms(4) this] assms(2)
    obtain j where "j < n" "get_action G ?ag s eps = (Inr (int j), ?ag\<lparr>rng := g1\<rparr>)" by auto
    then show ?thesis by simp
  qed
  moreover have "\<forall>k<n. actions ?ag ! k = int k" by (simp add: acts arange_nth)
  ultimately show ?thesis by blast
qed

theorem get_action_in_range_witness:
  "\<exists>a. fst (get_action (counting_gen (1 / 2))
            (run_calls (counting_gen (1 / 2))
               \<lparr>actions = arange 4, qtable = replicate 2 (replicate 4 0), learning_rate = 1 / 2,
                discount_factor = 99 / 100, rng = 5\<rparr>
               [GetAction 0 (99 / 100), UpdateQTable 0 1 2 (- 1)]) 1 (99 / 100)) = Inr a
        \<and> 0 \<le> a \<and> a < 4"
proof -
  let ?G = "counting_gen (1 / 2)"
  let ?ag = "\<lparr>actions = arange 4, qtable = replicate 2 (replicate 4 0), learning_rate = 1 / 2,
              discount_factor = 99 / 100, rng = 5\<rparr> :: nat QLearningAgent"
  have h: "QLearningAgent_init ?G 2 (arange 4) (1 / 2) (99 / 100) (Some 5) 0 = Inr ?ag"
    by (simp add: QLearningAgent_init_def default_rng_def counting_gen_def arange_def)
  have g: "\<forall>g. fst (rng_choice ?G 4 g) < 4" by (simp add: counting_gen_def)
  from get_action_in_range[OF h _ g, of 1 "[GetAction 0 (99 / 100), UpdateQTable 0 1 2 (- 1)]" "99 / 100"]
  show ?thesis by simp
qed

text \<open>
  With an action array that is not its own index range the two branches part: the
  exploiting call returns the index 0, which is not one of the actions.
\<close>

lemma get_action_index_is_no_action:
  "fst (get_action (counting_gen (1 / 2)) (trained_agent\<lparr>actions := [10, 20, 30, 40]\<rparr>) 0 0) = Inr 0
   \<and> (0::int) \<notin> set (actions (trained_agent\<lparr>actions := [10, 20, 30, 40]\<rparr>))"
  by code_simp

section \<open>The training loops\<close>




section \<open>Termination of the episode runner\<close>








end
